theory Spec2Isabelle
  imports Complex_Main
begin

section \<open>WordChain Arena: the in-memory game store (\<open>MemStorage\<close>)\<close>

text \<open>
  A shallow embedding of the class \<open>MemStorage\<close> of the server's storage module.
  The four maps and the two counters of the class are the fields of the record
  \<open>store\<close>; every method takes the store and returns its result with the new store.

  Conventions of the model:
  \<^item> JavaScript numbers that hold identifiers, rounds, scores and millisecond time stamps
    are integers (\<open>int\<close>); a \<open>Date\<close> is its millisecond time stamp, \<open>null\<close> is \<open>None\<close>.
  \<^item> Strings are lists of 8-bit characters read as ASCII. \<open>toUpperCase\<close> maps the letters
    a..z and \<open>trim\<close> strips TAB, LF, VT, FF, CR and SPACE; the other Unicode cases of the
    two JavaScript functions are outside the model.
  \<^item> A thrown \<open>Error(msg)\<close> is the value \<open>Inl msg\<close>; the store is returned as it was at
    the throw.
  \<^item> The two sources of nondeterminism are parameters. \<open>now\<close> is the clock (\<open>Date.now()\<close>,
    \<open>new Date()\<close>), read as one instant per call of a public method. Every call of
    \<open>Math.random()\<close> is a real parameter \<open>r\<close> with \<open>0 \<le> r < 1\<close> (the contract of
    \<open>Math.random\<close>, the predicate \<open>unit_interval\<close>); the random game identifier of
    \<open>createGame\<close> is the parameter \<open>newId\<close>.
  \<^item> Games and players are objects that the methods mutate in place and write back
    under their own \<open>id\<close>. The model is by value: it writes the changed record under its
    \<open>id\<close>. Both agree where every object is stored under its own identifier, which
    holds in every reachable store (lemma \<open>reachable_store_inv\<close>).
\<close>

subsection \<open>Data model\<close>

datatype status = Waiting | Playing | Finished

record user =
  id_u :: int
  username :: string

record game =
  id_g :: string
  hostId :: int
  status :: status
  round_g :: int
  currentWord :: string
  roundEndsAt :: "int option"
  isBotGame :: bool

record player =
  id_p :: int
  gameId :: string
  userId :: int
  score :: int
  hasSubmitted :: bool

record store =
  users :: "int \<rightharpoonup> user"
  games :: "string \<rightharpoonup> game"
  players :: "int \<rightharpoonup> player"
  gamePlayers :: "string \<rightharpoonup> int list"
  userIdCounter :: int
  playerIdCounter :: int

text \<open>The constructor: empty maps, both counters at 1.\<close>

definition MemStorage :: store where
  "MemStorage = \<lparr>users = Map.empty, games = Map.empty, players = Map.empty,
     gamePlayers = Map.empty, userIdCounter = 1, playerIdCounter = 1\<rparr>"

text \<open>The result \<open>{valid, message?}\<close> of \<open>submitWord\<close>.\<close>

record submit_result =
  valid :: bool
  message :: "string option"

text \<open>The view \<open>GameState\<close>: the game with its players and their display names.\<close>

type_synonym game_state = "game \<times> (player \<times> string) list"

subsection \<open>String helpers of the JavaScript library (ASCII)\<close>

definition upper_char :: "char \<Rightarrow> char" where
  "upper_char c =
     (case map_of (zip ''abcdefghijklmnopqrstuvwxyz'' ''ABCDEFGHIJKLMNOPQRSTUVWXYZ'') c of
        None \<Rightarrow> c
      | Some u \<Rightarrow> u)"

definition toUpperCase :: "string \<Rightarrow> string" where
  "toUpperCase w = map upper_char w"

definition is_space :: "char \<Rightarrow> bool" where
  "is_space c \<longleftrightarrow> c \<in> set [CHR 0x09, CHR 0x0A, CHR 0x0B, CHR 0x0C, CHR 0x0D, CHR 0x20]"

definition trim :: "string \<Rightarrow> string" where
  "trim w = rev (dropWhile is_space (rev (dropWhile is_space w)))"

text \<open>\<open>w.slice(-1)\<close>: the last character as a string, empty for the empty string.\<close>

definition slice_last :: "string \<Rightarrow> string" where
  "slice_last w = (if w = [] then [] else [last w])"

text \<open>\<open>w.charAt(0)\<close>: the first character as a string, empty for the empty string.\<close>

definition charAt0 :: "string \<Rightarrow> string" where
  "charAt0 w = take 1 w"

subsection \<open>Randomness\<close>

definition unit_interval :: "real \<Rightarrow> bool" where
  "unit_interval r \<longleftrightarrow> 0 \<le> r \<and> r < 1"

definition startWords :: "string list" where
  "startWords = [''APPLE'', ''TIGER'', ''RIVER'', ''CLOUD'', ''MUSIC'', ''GHOST'', ''LEMON'', ''PIZZA'']"

definition backupWords :: "string list" where
  "backupWords = [''STORM'', ''BREAD'', ''NIGHT'', ''DREAM'', ''FLAME'']"

text \<open>\<open>xs[Math.floor(r * xs.length)]\<close>; in range for every \<open>r\<close> of the unit interval.\<close>

definition pick :: "string list \<Rightarrow> real \<Rightarrow> string" where
  "pick xs r = xs ! nat \<lfloor>r * real (length xs)\<rfloor>"

subsection \<open>The methods\<close>

text \<open>\<open>this.gamePlayers.get(gameId) || []\<close>, as \<open>joinGame\<close>, \<open>submitWord\<close> and \<open>getGame\<close> read it.\<close>

definition playerIds_of :: "store \<Rightarrow> string \<Rightarrow> int list" where
  "playerIds_of s gid = (case gamePlayers s gid of None \<Rightarrow> [] | Some ps \<Rightarrow> ps)"

text \<open>
  The player that \<open>submitWord\<close> credits:
  \<open>playerIds.map(pid => this.players.get(pid)).find(p => p?.userId === userId)\<close>, the
  first player of the user in the order of enrolment; \<open>None\<close> is \<open>undefined\<close>.
\<close>

definition find_player :: "store \<Rightarrow> string \<Rightarrow> int \<Rightarrow> player option" where
  "find_player s gid uid =
     (case find (\<lambda>p. (case p of None \<Rightarrow> False | Some q \<Rightarrow> (userId q = uid)))
             (map (players s) (playerIds_of s gid)) of
        Some (Some p) \<Rightarrow> Some p
      | _ \<Rightarrow> None)"

definition createUser :: "store \<Rightarrow> string \<Rightarrow> user \<times> store" where
  "createUser s name =
     (let i = userIdCounter s;
          u = \<lparr>id_u = i, username = name\<rparr>
      in (u, s\<lparr>users := (users s)(i \<mapsto> u), userIdCounter := i + 1\<rparr>))"

definition getUser :: "store \<Rightarrow> int \<Rightarrow> user option" where
  "getUser s i = users s i"

text \<open>
  \<open>joinGame\<close>: the three guards in the order of the source (missing, started, full), then
  the search for a player of the same user. \<open>existing\<close> is a player identifier and the
  source tests it for truthiness, so the identifier 0 would count as not found.
\<close>

definition joinGame :: "store \<Rightarrow> string \<Rightarrow> int \<Rightarrow> (string + player) \<times> store" where
  "joinGame s gid uid =
     (case games s gid of
        None \<Rightarrow> (Inl ''Game not found'', s)
      | Some g \<Rightarrow>
          if status g \<noteq> Waiting then (Inl ''Game already started'', s)
          else
            let playerIds = playerIds_of s gid in
            if length playerIds \<ge> 4 then (Inl ''Game full'', s)
            else
              let existing = find (\<lambda>pid. (case players s pid of
                                              None \<Rightarrow> False
                                            | Some p \<Rightarrow> (userId p = uid))) playerIds;
                  found = (case existing of
                             None \<Rightarrow> None
                           | Some pid \<Rightarrow> if pid \<noteq> 0 then players s pid else None)
              in (case found of
                   Some p \<Rightarrow> (Inr p, s)
                 | None \<Rightarrow>
                     let p = \<lparr>id_p = playerIdCounter s, gameId = gid, userId = uid,
                              score = 0, hasSubmitted = False\<rparr>
                     in (Inr p,
                         s\<lparr>players := (players s)(id_p p \<mapsto> p),
                           gamePlayers := (gamePlayers s)(gid \<mapsto> playerIds @ [id_p p]),
                           playerIdCounter := playerIdCounter s + 1\<rparr>)))"

text \<open>
  \<open>createGame\<close>: \<open>newId\<close> is the identifier drawn by
  \<open>Math.random().toString(36).substring(2, 8).toUpperCase()\<close>; nothing checks that it is
  fresh. The host joins through \<open>joinGame\<close>, the bot is enrolled directly.
\<close>

definition createGame :: "store \<Rightarrow> string \<Rightarrow> int \<Rightarrow> bool \<Rightarrow> (string + game) \<times> store" where
  "createGame s newId host isBot =
     (let g = \<lparr>id_g = newId, hostId = host, status = Waiting, round_g = 0,
               currentWord = [], roundEndsAt = None, isBotGame = isBot\<rparr>;
          s1 = s\<lparr>games := (games s)(newId \<mapsto> g),
                 gamePlayers := (gamePlayers s)(newId \<mapsto> [])\<rparr>
      in case joinGame s1 newId host of
           (Inl e, s2) \<Rightarrow> (Inl e, s2)
         | (Inr _, s2) \<Rightarrow>
             if isBot then
               let botPlayer = \<lparr>id_p = playerIdCounter s2, gameId = newId, userId = - 1,
                                 score = 0, hasSubmitted = False\<rparr>;
                   s3 = s2\<lparr>players := (players s2)(id_p botPlayer \<mapsto> botPlayer),
                           playerIdCounter := playerIdCounter s2 + 1\<rparr>
               in (Inr g,
                   case gamePlayers s3 newId of
                     None \<Rightarrow> s3
                   | Some ps \<Rightarrow> s3\<lparr>gamePlayers := (gamePlayers s3)(newId \<mapsto> ps @ [id_p botPlayer])\<rparr>)
             else (Inr g, s2))"

definition startGame :: "store \<Rightarrow> string \<Rightarrow> int \<Rightarrow> real \<Rightarrow> (string + unit) \<times> store" where
  "startGame s gid now r =
     (case games s gid of
        None \<Rightarrow> (Inl ''Game not found'', s)
      | Some g \<Rightarrow>
          let word = pick startWords r;
              g' = g\<lparr>status := Playing, round_g := 1, currentWord := word,
                     roundEndsAt := Some (now + 5000)\<rparr>
          in (Inr (), s\<lparr>games := (games s)(gid \<mapsto> g')\<rparr>))"

text \<open>
  \<open>endRound\<close>, in two parts: what it does to the game object, and the write-back
  \<open>this.games.set(game.id, game)\<close>. The optional \<open>winningWord\<close> is tested for truthiness:
  the empty string counts as absent.
\<close>

definition endRound_game :: "game \<Rightarrow> string option \<Rightarrow> int \<Rightarrow> real \<Rightarrow> game" where
  "endRound_game g winningWord now r =
     (if round_g g \<ge> 5 then g\<lparr>status := Finished, roundEndsAt := None\<rparr>
      else
        let w = (case winningWord of
                   None \<Rightarrow> pick backupWords r
                 | Some ww \<Rightarrow> if ww \<noteq> [] then ww else pick backupWords r)
        in g\<lparr>round_g := round_g g + 1, currentWord := w, roundEndsAt := Some (now + 5000)\<rparr>)"

definition endRound :: "store \<Rightarrow> game \<Rightarrow> string option \<Rightarrow> int \<Rightarrow> real \<Rightarrow> store" where
  "endRound s g winningWord now r =
     (let g' = endRound_game g winningWord now r
      in s\<lparr>games := (games s)(id_g g' \<mapsto> g')\<rparr>)"

definition required_letter :: "game \<Rightarrow> string" where
  "required_letter g = toUpperCase (slice_last (currentWord g))"

definition mismatch_message :: "string \<Rightarrow> string" where
  "mismatch_message lastChar = ''Word must start with '' @ [CHR 0x27] @ lastChar @ [CHR 0x27]"

definition submitWord ::
  "store \<Rightarrow> string \<Rightarrow> int \<Rightarrow> string \<Rightarrow> int \<Rightarrow> real \<Rightarrow> submit_result \<times> store" where
  "submitWord s gid uid word now r =
     (case games s gid of
        None \<Rightarrow> (\<lparr>valid = False, message = Some ''Game not found''\<rparr>, s)
      | Some g \<Rightarrow>
          if status g \<noteq> Playing then (\<lparr>valid = False, message = Some ''Round not active''\<rparr>, s)
          else
            let lastChar = required_letter g;
                firstChar = toUpperCase (charAt0 (trim word))
            in if firstChar \<noteq> lastChar
               then (\<lparr>valid = False, message = Some (mismatch_message lastChar)\<rparr>, s)
               else
                 let s1 = (case find_player s gid uid of
                             Some p \<Rightarrow>
                               let p' = p\<lparr>score := score p + 1\<rparr>
                               in s\<lparr>players := (players s)(id_p p' \<mapsto> p')\<rparr>
                           | None \<Rightarrow> s)
                 in (\<lparr>valid = True, message = None\<rparr>,
                     endRound s1 g (Some (toUpperCase word)) now r))"

text \<open>
  \<open>processBotMove\<close>: \<open>coin\<close> is the draw compared with 0.3, \<open>r\<close> the draw that the
  nested \<open>endRound\<close> would take.
\<close>

definition processBotMove :: "store \<Rightarrow> string \<Rightarrow> int \<Rightarrow> real \<Rightarrow> real \<Rightarrow> store" where
  "processBotMove s gid now coin r =
     (case games s gid of
        None \<Rightarrow> s
      | Some g \<Rightarrow>
          if status g \<noteq> Playing \<or> \<not> isBotGame g then s
          else
            let timeLeft = (case roundEndsAt g of Some e \<Rightarrow> e - now | None \<Rightarrow> 0)
            in if timeLeft < 3000 \<and> timeLeft > 1000
               then (if coin > 3 / 10
                     then snd (submitWord s gid (- 1) (required_letter g @ ''BOTWORD'') now r)
                     else s)
               else s)"

text \<open>
  The timeout test of \<open>getGame\<close>:
  \<open>game.status === 'playing' && game.roundEndsAt && new Date() > game.roundEndsAt\<close>.
\<close>

definition expired :: "game \<Rightarrow> int \<Rightarrow> bool" where
  "expired g now \<longleftrightarrow>
     status g = Playing \<and> (case roundEndsAt g of None \<Rightarrow> False | Some e \<Rightarrow> now > e)"

definition display_name :: "store \<Rightarrow> player \<Rightarrow> string" where
  "display_name s p =
     (if userId p = - 1 then ''Alice (Bot)''
      else case users s (userId p) of None \<Rightarrow> ''Unknown'' | Some u \<Rightarrow> username u)"

text \<open>
  \<open>getGame\<close>: the timeout check, the bot hook, then the view. \<open>r1\<close> is the draw of the
  timeout's \<open>endRound\<close>; \<open>coin\<close> and \<open>r2\<close> go to \<open>processBotMove\<close>. The view spreads the
  local object \<open>game\<close>, which the nested calls have mutated in place: in the model, the
  game stored under \<open>gid\<close> after them (\<open>g2\<close>).
\<close>

definition getGame ::
  "store \<Rightarrow> string \<Rightarrow> int \<Rightarrow> real \<Rightarrow> real \<Rightarrow> real \<Rightarrow> game_state option \<times> store" where
  "getGame s gid now r1 coin r2 =
     (case games s gid of
        None \<Rightarrow> (None, s)
      | Some g \<Rightarrow>
          let g1 = (if expired g now then endRound_game g None now r1 else g);
              s1 = (if expired g now then endRound s g None now r1 else s);
              s2 = (if status g1 = Playing \<and> isBotGame g1
                    then processBotMove s1 gid now coin r2 else s1);
              g2 = (case games s2 gid of None \<Rightarrow> g1 | Some g' \<Rightarrow> g');
              playerIds = playerIds_of s2 gid;
              gamePlayersList = List.map_filter (players s2) playerIds
          in (Some (g2, map (\<lambda>p. (p, display_name s2 p)) gamePlayersList), s2))"

subsection \<open>Runs of the store\<close>

datatype op =
    CreateUser string
  | CreateGame string int bool
  | GetGame string int real real real
  | JoinGame string int
  | StartGame string int real
  | SubmitWord string int string int real
  | ProcessBotMove string int real real

fun step :: "store \<Rightarrow> op \<Rightarrow> store" where
  "step s (CreateUser name) = snd (createUser s name)"
| "step s (CreateGame newId host isBot) = snd (createGame s newId host isBot)"
| "step s (GetGame gid now r1 coin r2) = snd (getGame s gid now r1 coin r2)"
| "step s (JoinGame gid uid) = snd (joinGame s gid uid)"
| "step s (StartGame gid now r) = snd (startGame s gid now r)"
| "step s (SubmitWord gid uid word now r) = snd (submitWord s gid uid word now r)"
| "step s (ProcessBotMove gid now coin r) = processBotMove s gid now coin r"

text \<open>An operation is admissible when its random draws lie in the unit interval.\<close>

fun valid_op :: "op \<Rightarrow> bool" where
  "valid_op (GetGame gid now r1 coin r2) \<longleftrightarrow> unit_interval r1 \<and> unit_interval coin \<and> unit_interval r2"
| "valid_op (StartGame gid now r) \<longleftrightarrow> unit_interval r"
| "valid_op (SubmitWord gid uid word now r) \<longleftrightarrow> unit_interval r"
| "valid_op (ProcessBotMove gid now coin r) \<longleftrightarrow> unit_interval coin \<and> unit_interval r"
| "valid_op _ \<longleftrightarrow> True"

fun run :: "store \<Rightarrow> op list \<Rightarrow> store" where
  "run s [] = s"
| "run s (x # xs) = run (step s x) xs"

inductive reachable :: "store \<Rightarrow> bool" where
  init: "reachable MemStorage"
| step: "reachable s \<Longrightarrow> valid_op x \<Longrightarrow> reachable (step s x)"

subsection \<open>Invariant of the store\<close>

text \<open>
  What every game of a reachable store satisfies: the expiry is set exactly while the game
  is played, a game that has been started has a current word, and the round stays
  between 0 and 5.
\<close>

definition game_ok :: "game \<Rightarrow> bool" where
  "game_ok g \<longleftrightarrow>
     (roundEndsAt g \<noteq> None \<longleftrightarrow> status g = Playing) \<and>
     (status g \<noteq> Waiting \<longrightarrow> currentWord g \<noteq> []) \<and>
     0 \<le> round_g g \<and> round_g g \<le> 5"

text \<open>
  Every game and every player is stored under its own identifier, no game has more than
  four players, and player identifiers are positive.
\<close>

definition store_inv :: "store \<Rightarrow> bool" where
  "store_inv s \<longleftrightarrow>
     (\<forall>k g. games s k = Some g \<longrightarrow> id_g g = k \<and> game_ok g) \<and>
     (\<forall>k p. players s k = Some p \<longrightarrow> id_p p = k) \<and>
     (\<forall>k ps. gamePlayers s k = Some ps \<longrightarrow> length ps \<le> 4 \<and> (\<forall>pid \<in> set ps. 1 \<le> pid)) \<and>
     1 \<le> playerIdCounter s"

subsection \<open>Names for the effects of the methods\<close>

text \<open>The record that \<open>joinGame\<close> and \<open>createGame\<close> build for a new player.\<close>

definition new_player :: "store \<Rightarrow> string \<Rightarrow> int \<Rightarrow> player" where
  "new_player s gid uid =
     \<lparr>id_p = playerIdCounter s, gameId = gid, userId = uid, score = 0, hasSubmitted = False\<rparr>"

text \<open>The store after a new player has been enrolled.\<close>

definition enroll :: "store \<Rightarrow> string \<Rightarrow> int \<Rightarrow> store" where
  "enroll s gid uid =
     s\<lparr>players := (players s)(playerIdCounter s \<mapsto> new_player s gid uid),
       gamePlayers := (gamePlayers s)(gid \<mapsto> playerIds_of s gid @ [playerIdCounter s]),
       playerIdCounter := playerIdCounter s + 1\<rparr>"

text \<open>The store after \<open>submitWord\<close> has credited the winner, if there is one.\<close>

definition credit :: "store \<Rightarrow> string \<Rightarrow> int \<Rightarrow> store" where
  "credit s gid uid =
     (case find_player s gid uid of
        Some p \<Rightarrow> s\<lparr>players := (players s)(id_p p \<mapsto> p\<lparr>score := score p + 1\<rparr>)\<rparr>
      | None \<Rightarrow> s)"

text \<open>The first-letter check of \<open>submitWord\<close>.\<close>

definition accepts :: "game \<Rightarrow> string \<Rightarrow> bool" where
  "accepts g word \<longleftrightarrow> toUpperCase (charAt0 (trim word)) = required_letter g"

text \<open>The condition under which \<open>processBotMove\<close> submits a word.\<close>

definition bot_moves :: "game \<Rightarrow> int \<Rightarrow> real \<Rightarrow> bool" where
  "bot_moves g now coin \<longleftrightarrow>
     status g = Playing \<and> isBotGame g \<and> coin > 3 / 10 \<and>
     (case roundEndsAt g of None \<Rightarrow> False | Some e \<Rightarrow> e - now < 3000 \<and> e - now > 1000)"

text \<open>The game that \<open>createGame\<close> builds and the store once it is registered.\<close>

definition new_game :: "string \<Rightarrow> int \<Rightarrow> bool \<Rightarrow> game" where
  "new_game newId host isBot =
     \<lparr>id_g = newId, hostId = host, status = Waiting, round_g = 0,
      currentWord = [], roundEndsAt = None, isBotGame = isBot\<rparr>"

definition open_game :: "store \<Rightarrow> string \<Rightarrow> int \<Rightarrow> bool \<Rightarrow> store" where
  "open_game s newId host isBot =
     s\<lparr>games := (games s)(newId \<mapsto> new_game newId host isBot),
       gamePlayers := (gamePlayers s)(newId \<mapsto> [])\<rparr>"

subsection \<open>Concrete runs\<close>

text \<open>User 1 creates the game \<open>G\<close> and starts it; the draw 0 selects APPLE.\<close>

definition started_ops :: "op list" where
  "started_ops = [CreateGame ''G'' 1 False, StartGame ''G'' 0 0]"

definition started :: store where
  "started = run MemStorage started_ops"

definition apple_game :: game where
  "apple_game = \<lparr>id_g = ''G'', hostId = 1, status = Playing, round_g = 1,
     currentWord = ''APPLE'', roundEndsAt = Some 5000, isBotGame = False\<rparr>"

definition host_player :: player where
  "host_player = \<lparr>id_p = 1, gameId = ''G'', userId = 1, score = 0, hasSubmitted = False\<rparr>"

text \<open>
  Four accepted submissions of the host lead to round 5 with the current word LIME.
\<close>

definition round5_ops :: "op list" where
  "round5_ops = started_ops @
     [SubmitWord ''G'' 1 ''eel'' 0 0, SubmitWord ''G'' 1 ''lime'' 0 0,
      SubmitWord ''G'' 1 ''eel'' 0 0, SubmitWord ''G'' 1 ''lime'' 0 0]"

definition round5 :: store where
  "round5 = run MemStorage round5_ops"

definition lime_game :: game where
  "lime_game = \<lparr>id_g = ''G'', hostId = 1, status = Playing, round_g = 5,
     currentWord = ''LIME'', roundEndsAt = Some 5000, isBotGame = False\<rparr>"

text \<open>A fifth accepted submission at round 5 finishes the game.\<close>

definition finished_ops :: "op list" where
  "finished_ops = round5_ops @ [SubmitWord ''G'' 1 ''eel'' 0 0]"

definition finished :: store where
  "finished = run MemStorage finished_ops"

definition over_game :: game where
  "over_game = \<lparr>id_g = ''G'', hostId = 1, status = Finished, round_g = 5,
     currentWord = ''LIME'', roundEndsAt = None, isBotGame = False\<rparr>"

text \<open>
  Users 2, 3 and 4 join the game of user 1 before it starts: a lobby with four players,
  and the same game once started.
\<close>

definition lobby_ops :: "op list" where
  "lobby_ops = [CreateGame ''G'' 1 False, JoinGame ''G'' 2, JoinGame ''G'' 3, JoinGame ''G'' 4]"

definition full_lobby :: store where
  "full_lobby = run MemStorage lobby_ops"

definition full_started :: store where
  "full_started = run MemStorage (lobby_ops @ [StartGame ''G'' 0 0])"

definition seat :: "int \<Rightarrow> player" where
  "seat n = \<lparr>id_p = n, gameId = ''G'', userId = n, score = 0, hasSubmitted = False\<rparr>"

text \<open>A bot game of user 1, started; the draw 0 selects APPLE.\<close>

definition bot_ops :: "op list" where
  "bot_ops = [CreateGame ''B'' 1 True, StartGame ''B'' 0 0]"

definition bot_started :: store where
  "bot_started = run MemStorage bot_ops"

definition bot_game :: game where
  "bot_game = \<lparr>id_g = ''B'', hostId = 1, status = Playing, round_g = 1,
     currentWord = ''APPLE'', roundEndsAt = Some 5000, isBotGame = True\<rparr>"

subsection \<open>Status changes\<close>

text \<open>
  The operations that put a game under the identifier \<open>k\<close> back: \<open>startGame\<close> on \<open>k\<close>, and
  \<open>createGame\<close> when it draws the identifier \<open>k\<close> again.
\<close>

fun restarts :: "op \<Rightarrow> string \<Rightarrow> bool" where
  "restarts (StartGame gid now r) k \<longleftrightarrow> gid = k"
| "restarts (CreateGame newId host isBot) k \<longleftrightarrow> newId = k"
| "restarts _ k \<longleftrightarrow> False"

text \<open>
  What the other operations can do to a game: nothing, or move a played game on (it is
  still played or it is finished).
\<close>

definition moves_on :: "game \<Rightarrow> game \<Rightarrow> bool" where
  "moves_on g g' \<longleftrightarrow> g' = g \<or> (status g = Playing \<and> (status g' = Playing \<or> status g' = Finished))"

section \<open>Properties\<close>

subsection \<open>Random picks\<close>

lemma pick_mem: "unit_interval r \<Longrightarrow> xs \<noteq> [] \<Longrightarrow> pick xs r \<in> set xs"
proof -
  assume r: "unit_interval r" and ne: "xs \<noteq> []"
  have pos: "0 < real (length xs)" using ne by simp
  have "r * real (length xs) < real (length xs)"
    using r pos by (simp add: unit_interval_def)
  then have "\<lfloor>r * real (length xs)\<rfloor> < int (length xs)"
    by (simp add: floor_less_iff)
  moreover have "0 \<le> \<lfloor>r * real (length xs)\<rfloor>"
    using r by (simp add: unit_interval_def)
  ultimately have "nat \<lfloor>r * real (length xs)\<rfloor> < length xs" by linarith
  then show ?thesis by (simp add: pick_def)
qed

lemma pick_startWords: "unit_interval r \<Longrightarrow> pick startWords r \<in> set startWords"
  by (rule pick_mem) (simp_all add: startWords_def)

lemma pick_backupWords: "unit_interval r \<Longrightarrow> pick backupWords r \<in> set backupWords"
  by (rule pick_mem) (simp_all add: backupWords_def)

lemma startWords_nonempty: "w \<in> set startWords \<Longrightarrow> w \<noteq> []"
  by (auto simp: startWords_def)

lemma backupWords_nonempty: "w \<in> set backupWords \<Longrightarrow> w \<noteq> []"
  by (auto simp: backupWords_def)

subsection \<open>The store invariant is preserved by every method\<close>

lemma id_endRound_game [simp]: "id_g (endRound_game g w now r) = id_g g"
  by (simp add: endRound_game_def Let_def)

lemma endRound_game_ok:
  "game_ok g \<Longrightarrow> status g = Playing \<Longrightarrow> unit_interval r \<Longrightarrow> game_ok (endRound_game g w now r)"
  using backupWords_nonempty [OF pick_backupWords, of r]
  by (auto simp: game_ok_def endRound_game_def Let_def split: option.splits)

lemma endRound_inv:
  "store_inv s \<Longrightarrow> game_ok g \<Longrightarrow> status g = Playing \<Longrightarrow> unit_interval r \<Longrightarrow>
   store_inv (endRound s g w now r)"
  using endRound_game_ok [of g r w now]
  by (auto simp: store_inv_def endRound_def Let_def)

lemma createUser_inv: "store_inv s \<Longrightarrow> store_inv (snd (createUser s name))"
  by (simp add: store_inv_def createUser_def Let_def)

lemma playerIds_of_bounds:
  "store_inv s \<Longrightarrow> length (playerIds_of s k) \<le> 4 \<and> (\<forall>pid \<in> set (playerIds_of s k). 1 \<le> pid)"
  by (auto simp: store_inv_def playerIds_of_def split: option.splits)

lemma joinGame_store:
  "snd (joinGame s gid uid) = s \<or>
   (\<exists>g. games s gid = Some g \<and> status g = Waiting) \<and> length (playerIds_of s gid) < 4 \<and> snd (joinGame s gid uid) = enroll s gid uid"
  by (simp add: joinGame_def enroll_def new_player_def Let_def split: option.splits)

lemma enroll_inv:
  assumes "store_inv s" "length (playerIds_of s gid) < 4"
  shows "store_inv (enroll s gid uid)"
proof -
  have b: "\<forall>pid \<in> set (playerIds_of s gid). 1 \<le> pid"
    using playerIds_of_bounds [OF assms(1)] by blast
  have c: "1 \<le> playerIdCounter s" using assms(1) by (simp add: store_inv_def)
  show ?thesis
    unfolding store_inv_def
  proof (intro conjI allI impI)
    fix k g assume "games (enroll s gid uid) k = Some g"
    then have "games s k = Some g" by (simp add: enroll_def)
    then show "id_g g = k" "game_ok g" using assms(1) by (simp_all add: store_inv_def)
  next
    fix k p assume "players (enroll s gid uid) k = Some p"
    then show "id_p p = k" using assms(1)
      by (auto simp: enroll_def new_player_def store_inv_def split: if_splits)
  next
    fix k ps assume h: "gamePlayers (enroll s gid uid) k = Some ps"
    show "length ps \<le> 4"
    proof (cases "k = gid")
      case True then show ?thesis using h assms(2) by (auto simp: enroll_def)
    next
      case False then show ?thesis using h assms(1) by (simp add: enroll_def store_inv_def)
    qed
    show "\<forall>pid\<in>set ps. 1 \<le> pid"
    proof (cases "k = gid")
      case True then show ?thesis using h b c by (auto simp: enroll_def)
    next
      case False then show ?thesis using h assms(1) by (simp add: enroll_def store_inv_def)
    qed
  next
    show "1 \<le> playerIdCounter (enroll s gid uid)" using c by (simp add: enroll_def)
  qed
qed

lemma joinGame_inv: "store_inv s \<Longrightarrow> store_inv (snd (joinGame s gid uid))"
  using joinGame_store [of s gid uid] enroll_inv [of s gid uid] by auto

lemma startGame_inv:
  assumes "store_inv s" "unit_interval r"
  shows "store_inv (snd (startGame s gid now r))"
proof (cases "games s gid")
  case None
  then show ?thesis using assms(1) by (simp add: startGame_def)
next
  case (Some g)
  have w: "pick startWords r \<noteq> []"
    using startWords_nonempty [OF pick_startWords [OF assms(2)]] .
  have idg: "id_g g = gid" using Some assms(1) by (simp add: store_inv_def)
  have ok: "game_ok (g\<lparr>status := Playing, round_g := 1, currentWord := pick startWords r,
                     roundEndsAt := Some (now + 5000)\<rparr>)"
    using w by (simp add: game_ok_def)
  show ?thesis
    using Some assms(1) idg ok
    by (simp add: startGame_def Let_def store_inv_def)
qed

lemma credit_inv:
  "store_inv s \<Longrightarrow> store_inv (s\<lparr>players := (players s)(id_p p \<mapsto> p\<lparr>score := n\<rparr>)\<rparr>)"
  by (simp add: store_inv_def)

lemma submitWord_accepted:
  "games s gid = Some g \<Longrightarrow> status g = Playing \<Longrightarrow> accepts g word \<Longrightarrow>
   submitWord s gid uid word now r =
     (\<lparr>valid = True, message = None\<rparr>, endRound (credit s gid uid) g (Some (toUpperCase word)) now r)"
  by (simp add: submitWord_def credit_def accepts_def Let_def split: option.splits)

lemma submitWord_rejected:
  "games s gid = Some g \<Longrightarrow> status g = Playing \<Longrightarrow> \<not> accepts g word \<Longrightarrow>
   submitWord s gid uid word now r =
     (\<lparr>valid = False, message = Some (mismatch_message (required_letter g))\<rparr>, s)"
  by (simp add: submitWord_def accepts_def Let_def)

lemma submitWord_inactive:
  "games s gid = None \<or> (\<exists>g. games s gid = Some g \<and> status g \<noteq> Playing) \<Longrightarrow>
   snd (submitWord s gid uid word now r) = s"
  by (auto simp: submitWord_def)

lemma credit_store_inv: "store_inv s \<Longrightarrow> store_inv (credit s gid uid)"
  by (simp add: credit_def credit_inv split: option.splits)

lemma submitWord_inv:
  assumes "store_inv s" "unit_interval r"
  shows "store_inv (snd (submitWord s gid uid word now r))"
proof (cases "games s gid")
  case None
  then show ?thesis using assms(1) by (simp add: submitWord_inactive)
next
  case (Some g)
  then have ok: "game_ok g" using assms(1) by (simp add: store_inv_def)
  show ?thesis
  proof (cases "status g = Playing")
    case False
    then show ?thesis using Some assms(1) by (simp add: submitWord_inactive)
  next
    case True
    show ?thesis
    proof (cases "accepts g word")
      case False
      then show ?thesis using Some True assms(1) by (simp add: submitWord_rejected)
    next
      case acc: True
      show ?thesis
        using Some True acc ok assms
        by (simp add: submitWord_accepted endRound_inv credit_store_inv)
    qed
  qed
qed

lemma processBotMove_moves:
  "games s gid = Some g \<Longrightarrow> bot_moves g now coin \<Longrightarrow>
   processBotMove s gid now coin r =
     snd (submitWord s gid (- 1) (required_letter g @ ''BOTWORD'') now r)"
  by (simp add: processBotMove_def bot_moves_def Let_def split: option.splits)

lemma processBotMove_absent:
  "games s gid = None \<Longrightarrow> processBotMove s gid now coin r = s"
  by (simp add: processBotMove_def)

lemma processBotMove_idle:
  "games s gid = Some g \<Longrightarrow> \<not> bot_moves g now coin \<Longrightarrow>
   processBotMove s gid now coin r = s"
  by (cases "roundEndsAt g") (auto simp: processBotMove_def bot_moves_def Let_def)

lemma processBotMove_inv:
  assumes "store_inv s" "unit_interval r"
  shows "store_inv (processBotMove s gid now coin r)"
proof (cases "games s gid")
  case None
  then show ?thesis using assms(1) by (simp add: processBotMove_absent)
next
  case (Some g)
  show ?thesis
  proof (cases "bot_moves g now coin")
    case True
    then show ?thesis
      using Some assms by (simp add: processBotMove_moves submitWord_inv)
  next
    case False
    then show ?thesis
      using Some assms(1) by (simp add: processBotMove_idle)
  qed
qed

lemma getGame_absent: "games s gid = None \<Longrightarrow> getGame s gid now r1 coin r2 = (None, s)"
  by (simp add: getGame_def)

lemma getGame_fresh:
  "games s gid = Some g \<Longrightarrow> \<not> expired g now \<Longrightarrow>
   snd (getGame s gid now r1 coin r2) =
     (if status g = Playing \<and> isBotGame g then processBotMove s gid now coin r2 else s)"
  by (simp add: getGame_def Let_def)

lemma endRound_game_not_bot_moves: "\<not> bot_moves (endRound_game g w now r) now coin"
  by (simp add: bot_moves_def endRound_game_def Let_def)

lemma games_endRound:
  "games (endRound s g w now r) = (games s)(id_g g \<mapsto> endRound_game g w now r)"
  by (simp add: endRound_def Let_def)

lemma getGame_expired:
  assumes "games s gid = Some g" "expired g now" "id_g g = gid"
  shows "snd (getGame s gid now r1 coin r2) = endRound s g None now r1"
proof -
  have "processBotMove (endRound s g None now r1) gid now coin r2 = endRound s g None now r1"
    using assms(3) endRound_game_not_bot_moves [of g None now r1 coin]
    by (intro processBotMove_idle [where g = "endRound_game g None now r1"])
       (simp_all add: games_endRound)
  then show ?thesis
    using assms(1,2) by (simp add: getGame_def Let_def)
qed

lemma getGame_inv:
  assumes "store_inv s" "unit_interval r1" "unit_interval r2"
  shows "store_inv (snd (getGame s gid now r1 coin r2))"
proof (cases "games s gid")
  case None
  then show ?thesis using assms(1) by (simp add: getGame_absent)
next
  case (Some g)
  then have g: "id_g g = gid" "game_ok g" using assms(1) by (simp_all add: store_inv_def)
  show ?thesis
  proof (cases "expired g now")
    case True
    then have "status g = Playing" by (simp add: expired_def)
    then show ?thesis
      using Some True g assms by (simp add: getGame_expired endRound_inv)
  next
    case False
    then show ?thesis
      using Some assms by (simp add: getGame_fresh processBotMove_inv)
  qed
qed

lemma playerIds_of_open_game [simp]: "playerIds_of (open_game s newId host isBot) newId = []"
  by (simp add: playerIds_of_def open_game_def)

lemma playerIds_of_enroll [simp]:
  "playerIds_of (enroll s gid uid) k =
     (if k = gid then playerIds_of s gid @ [playerIdCounter s] else playerIds_of s k)"
  by (simp add: playerIds_of_def enroll_def)

lemma joinGame_open_game:
  "joinGame (open_game s newId host isBot) newId host =
     (Inr (new_player (open_game s newId host isBot) newId host),
      enroll (open_game s newId host isBot) newId host)"
  by (simp add: joinGame_def Let_def enroll_def new_player_def open_game_def new_game_def
        playerIds_of_def)

lemma createGame_eq:
  "createGame s newId host isBot =
     (Inr (new_game newId host isBot),
      if isBot then enroll (enroll (open_game s newId host isBot) newId host) newId (- 1)
      else enroll (open_game s newId host isBot) newId host)"
proof -
  have j: "joinGame (s\<lparr>games := (games s)(newId \<mapsto> new_game newId host isBot),
                  gamePlayers := (gamePlayers s)(newId \<mapsto> [])\<rparr>) newId host =
     (Inr (new_player (open_game s newId host isBot) newId host),
      enroll (open_game s newId host isBot) newId host)"
    using joinGame_open_game [of s newId host isBot] by (simp add: open_game_def)
  show ?thesis
    unfolding createGame_def new_game_def [symmetric] Let_def j
    by (simp add: enroll_def new_player_def playerIds_of_def)
qed

lemma open_game_inv: "store_inv s \<Longrightarrow> store_inv (open_game s newId host isBot)"
  by (simp add: store_inv_def open_game_def new_game_def game_ok_def)

lemma createGame_inv: "store_inv s \<Longrightarrow> store_inv (snd (createGame s newId host isBot))"
  by (simp add: createGame_eq enroll_inv open_game_inv)

lemma step_inv: "store_inv s \<Longrightarrow> valid_op x \<Longrightarrow> store_inv (step s x)"
  by (cases x)
     (simp_all add: createUser_inv createGame_inv getGame_inv joinGame_inv startGame_inv
        submitWord_inv processBotMove_inv)

lemma MemStorage_inv: "store_inv MemStorage"
  by (simp add: store_inv_def MemStorage_def)

lemma reachable_store_inv: "reachable s \<Longrightarrow> store_inv s"
  by (induction rule: reachable.induct) (simp_all add: MemStorage_inv step_inv)

lemma reachable_run: "reachable s \<Longrightarrow> list_all valid_op xs \<Longrightarrow> reachable (run s xs)"
  by (induction xs arbitrary: s) (simp_all add: reachable.step)

subsection \<open>Evaluation of the concrete runs\<close>

lemmas method_defs = createGame_def joinGame_def startGame_def submitWord_def endRound_def
  endRound_game_def getGame_def processBotMove_def createUser_def playerIds_of_def find_player_def
  expired_def required_letter_def mismatch_message_def
lemmas string_defs = toUpperCase_def upper_char_def trim_def is_space_def slice_last_def charAt0_def
  pick_def startWords_def backupWords_def

lemma started_eq:
  "started = \<lparr>users = Map.empty, games = [''G'' \<mapsto> apple_game],
     players = [1 \<mapsto> host_player], gamePlayers = [''G'' \<mapsto> [1]],
     userIdCounter = 1, playerIdCounter = 2\<rparr>"
  by (simp add: started_def started_ops_def MemStorage_def apple_game_def host_player_def
        method_defs string_defs Let_def)

lemma reachable_started: "reachable started"
  unfolding started_def
  by (rule reachable_run [OF reachable.init]) (simp add: started_ops_def unit_interval_def)

subsection \<open>Claims about \<open>submitWord\<close>\<close>

text \<open>
  Claim C3. In a game that is being played, a word whose first character after trimming,
  compared in upper case, differs from the last character of the current word in upper
  case is rejected: \<open>submitWord\<close> returns \<open>valid = False\<close> with the message
  \<open>Word must start with 'X'\<close>, where \<open>X\<close> is the required letter, and the store
  (scores, round, current word, status, expiry and everything else) is returned unchanged.
\<close>

theorem C3_mismatch_rejected:
  assumes "games s gid = Some g" and "status g = Playing"
    and "toUpperCase (charAt0 (trim word)) \<noteq> toUpperCase (slice_last (currentWord g))"
  shows "submitWord s gid uid word now r =
           (\<lparr>valid = False,
             message = Some (''Word must start with '' @ [CHR 0x27] @
                             toUpperCase (slice_last (currentWord g)) @ [CHR 0x27])\<rparr>, s)"
  using assms by (simp add: submitWord_def required_letter_def mismatch_message_def Let_def)

theorem C3_mismatch_rejected_witness:
  "games started ''G'' = Some apple_game \<and> status apple_game = Playing \<and>
   toUpperCase (charAt0 (trim '' tiger'')) \<noteq> toUpperCase (slice_last (currentWord apple_game)) \<and>
   submitWord started ''G'' 1 '' tiger'' 7 0 =
     (\<lparr>valid = False, message = Some (''Word must start with '' @ [CHR 0x27] @ ''E'' @ [CHR 0x27])\<rparr>,
      started)"
proof -
  have h1: "games started ''G'' = Some apple_game" by (simp add: started_eq)
  have h2: "status apple_game = Playing" by (simp add: apple_game_def)
  have h3: "toUpperCase (charAt0 (trim '' tiger'')) \<noteq> toUpperCase (slice_last (currentWord apple_game))"
    by (simp add: apple_game_def string_defs)
  have e: "toUpperCase (slice_last (currentWord apple_game)) = ''E''"
    by (simp add: apple_game_def string_defs)
  show ?thesis
    using C3_mismatch_rejected [OF h1 h2 h3, of 1 7 0] h1 h2 h3 e by simp
qed

subsection \<open>Effects of a submission\<close>

lemma find_player_Some:
  assumes "find_player s gid uid = Some p"
  shows "\<exists>pid \<in> set (playerIds_of s gid). players s pid = Some p \<and> userId p = uid"
proof -
  let ?P = "\<lambda>q. (case q of None \<Rightarrow> False | Some q' \<Rightarrow> (userId q' = uid))"
  from assms have "find ?P (map (players s) (playerIds_of s gid)) = Some (Some p)"
    by (simp add: find_player_def split: option.splits)
  then obtain i where i: "i < length (map (players s) (playerIds_of s gid))"
      "?P (map (players s) (playerIds_of s gid) ! i)"
      "Some p = map (players s) (playerIds_of s gid) ! i"
    unfolding find_Some_iff by blast
  then have "players s (playerIds_of s gid ! i) = Some p" "userId p = uid" "i < length (playerIds_of s gid)"
    by (auto split: option.splits)
  then show ?thesis by (metis nth_mem)
qed

lemma find_player_stored:
  "store_inv s \<Longrightarrow> find_player s gid uid = Some p \<Longrightarrow> players s (id_p p) = Some p \<and> userId p = uid"
  using find_player_Some [of s gid uid p] by (auto simp: store_inv_def)

lemma find_player_None:
  assumes "\<forall>pid \<in> set (playerIds_of s gid). \<forall>p. players s pid = Some p \<longrightarrow> userId p \<noteq> uid"
  shows "find_player s gid uid = None"
proof -
  let ?P = "\<lambda>q. (case q of None \<Rightarrow> False | Some q' \<Rightarrow> (userId q' = uid))"
  have "\<not> (\<exists>x. x \<in> set (map (players s) (playerIds_of s gid)) \<and> ?P x)"
    using assms by (auto split: option.splits)
  then have "find ?P (map (players s) (playerIds_of s gid)) = None"
    unfolding find_None_iff .
  then show ?thesis by (simp add: find_player_def)
qed

lemma trim_Nil [simp]: "trim [] = []"
  by (simp add: trim_def)

lemma accepted_nonempty:
  assumes "game_ok g" "status g = Playing" "accepts g word"
  shows "word \<noteq> []"
proof
  assume "word = []"
  then have "required_letter g = []" using assms(3) by (simp add: accepts_def charAt0_def toUpperCase_def)
  moreover have "currentWord g \<noteq> []" using assms(1,2) by (simp add: game_ok_def)
  ultimately show False by (simp add: required_letter_def slice_last_def toUpperCase_def)
qed

lemma endRound_game_won:
  "word \<noteq> [] \<Longrightarrow> round_g g < 5 \<Longrightarrow>
   endRound_game g (Some (toUpperCase word)) now r =
     g\<lparr>round_g := round_g g + 1, currentWord := toUpperCase word, roundEndsAt := Some (now + 5000)\<rparr>"
  by (simp add: endRound_game_def toUpperCase_def Let_def)

lemma endRound_game_timeout:
  "round_g g < 5 \<Longrightarrow>
   endRound_game g None now r =
     g\<lparr>round_g := round_g g + 1, currentWord := pick backupWords r, roundEndsAt := Some (now + 5000)\<rparr>"
  by (simp add: endRound_game_def Let_def)

lemma endRound_game_final:
  "round_g g \<ge> 5 \<Longrightarrow> endRound_game g w now r = g\<lparr>status := Finished, roundEndsAt := None\<rparr>"
  by (simp add: endRound_game_def)

lemma players_endRound [simp]: "players (endRound s g w now r) = players s"
  by (simp add: endRound_def Let_def)

lemma games_credit [simp]: "games (credit s gid uid) = games s"
  by (simp add: credit_def split: option.splits)

lemma players_credit_Some:
  "find_player s gid uid = Some p \<Longrightarrow>
   players (credit s gid uid) = (players s)(id_p p \<mapsto> p\<lparr>score := score p + 1\<rparr>)"
  by (simp add: credit_def)

lemma players_credit_None: "find_player s gid uid = None \<Longrightarrow> credit s gid uid = s"
  by (simp add: credit_def)


lemma round5_eq:
  "round5 = \<lparr>users = Map.empty, games = [''G'' \<mapsto> lime_game],
     players = [1 \<mapsto> host_player\<lparr>score := 4\<rparr>], gamePlayers = [''G'' \<mapsto> [1]],
     userIdCounter = 1, playerIdCounter = 2\<rparr>"
  by (simp add: round5_def round5_ops_def started_ops_def MemStorage_def lime_game_def host_player_def
        method_defs string_defs Let_def)

lemma reachable_round5: "reachable round5"
  unfolding round5_def
  by (rule reachable_run [OF reachable.init])
     (simp add: round5_ops_def started_ops_def unit_interval_def)

lemma submitWord_credits:
  assumes "reachable s" and "games s gid = Some g" and "status g = Playing"
    and "find_player s gid uid = Some p"
    and "toUpperCase (charAt0 (trim word)) = toUpperCase (slice_last (currentWord g))"
  shows "fst (submitWord s gid uid word now r) = \<lparr>valid = True, message = None\<rparr> \<and>
         players s (id_p p) = Some p \<and> userId p = uid \<and>
         players (snd (submitWord s gid uid word now r)) =
           (players s)(id_p p \<mapsto> p\<lparr>score := score p + 1\<rparr>) \<and>
         (round_g g < 5 \<longrightarrow>
            games (snd (submitWord s gid uid word now r)) =
              (games s)(gid \<mapsto> g\<lparr>round_g := round_g g + 1, currentWord := toUpperCase word,
                                roundEndsAt := Some (now + 5000)\<rparr>)) \<and>
         (round_g g \<ge> 5 \<longrightarrow>
            games (snd (submitWord s gid uid word now r)) =
              (games s)(gid \<mapsto> g\<lparr>status := Finished, roundEndsAt := None\<rparr>))"
proof -
  have inv: "store_inv s" using assms(1) by (rule reachable_store_inv)
  have g: "id_g g = gid" "game_ok g" using inv assms(2) by (simp_all add: store_inv_def)
  have acc: "accepts g word" using assms(5) by (simp add: accepts_def required_letter_def)
  have ne: "word \<noteq> []" using g(2) assms(3) acc by (rule accepted_nonempty)
  have eq: "submitWord s gid uid word now r =
     (\<lparr>valid = True, message = None\<rparr>, endRound (credit s gid uid) g (Some (toUpperCase word)) now r)"
    using assms(2,3) acc by (rule submitWord_accepted)
  have p: "players s (id_p p) = Some p \<and> userId p = uid"
    using inv assms(4) by (rule find_player_stored)
  show ?thesis
    using p g(1) ne assms(4)
    by (simp add: eq games_endRound players_credit_Some endRound_game_won endRound_game_final)
qed

lemma find_player_enrolled:
  assumes "pid \<in> set (playerIds_of s gid)" and "players s pid = Some q" and "userId q = uid"
  shows "\<exists>p. find_player s gid uid = Some p"
proof (rule ccontr)
  assume "\<nexists>p. find_player s gid uid = Some p"
  then have none: "find_player s gid uid = None" by simp
  let ?P = "\<lambda>q. (case q of None \<Rightarrow> False | Some q' \<Rightarrow> (userId q' = uid))"
  have m: "Some q \<in> set (map (players s) (playerIds_of s gid))"
    using assms(1,2) by force
  show False
  proof (cases "find ?P (map (players s) (playerIds_of s gid))")
    case None
    then have "\<not> ?P (Some q)" using m unfolding find_None_iff by blast
    then show False using assms(3) by simp
  next
    case (Some x)
    then have "?P x" unfolding find_Some_iff by blast
    then obtain p where "x = Some p" by (cases x) simp_all
    then show False using Some none by (simp add: find_player_def)
  qed
qed

text \<open>
  Claim C4. In a reachable store, let the game be played, let the submitting user have a
  player enrolled in it, and let the word pass the first-letter check. Then \<open>submitWord\<close>
  returns \<open>valid = True\<close>. The players map changes at one record only, whose score grows by
  exactly 1: the player \<open>p\<close> of that user that \<open>submitWord\<close> looks up (the first one among
  the enrolled players). Below round 5 the round grows by exactly 1, the submitted word (in
  upper case, as the source stores it) becomes the current word and the expiry is set to
  5 seconds from now; at round 5 the status becomes \<open>Finished\<close> and the expiry is cleared
  instead. No other game changes.
\<close>

theorem C4_valid_submission:
  assumes "reachable s" and "games s gid = Some g" and "status g = Playing"
    and "pid \<in> set (playerIds_of s gid)" and "players s pid = Some q" and "userId q = uid"
    and "toUpperCase (charAt0 (trim word)) = toUpperCase (slice_last (currentWord g))"
  shows "\<exists>p. find_player s gid uid = Some p \<and> userId p = uid \<and> players s (id_p p) = Some p \<and>
           fst (submitWord s gid uid word now r) = \<lparr>valid = True, message = None\<rparr> \<and>
           players (snd (submitWord s gid uid word now r)) =
             (players s)(id_p p \<mapsto> p\<lparr>score := score p + 1\<rparr>) \<and>
           (round_g g < 5 \<longrightarrow>
              games (snd (submitWord s gid uid word now r)) =
                (games s)(gid \<mapsto> g\<lparr>round_g := round_g g + 1, currentWord := toUpperCase word,
                                  roundEndsAt := Some (now + 5000)\<rparr>)) \<and>
           (round_g g \<ge> 5 \<longrightarrow>
              games (snd (submitWord s gid uid word now r)) =
                (games s)(gid \<mapsto> g\<lparr>status := Finished, roundEndsAt := None\<rparr>))"
proof -
  obtain p where p: "find_player s gid uid = Some p"
    using find_player_enrolled [OF assms(4,5,6)] by blast
  show ?thesis
    using submitWord_credits [OF assms(1,2,3) p assms(7), of now r] p by blast
qed

theorem C4_valid_submission_witness:
  "(reachable started \<and> games started ''G'' = Some apple_game \<and> status apple_game = Playing \<and>
    playerIds_of started ''G'' = [1] \<and> players started 1 = Some host_player \<and>
    userId host_player = 1 \<and>
    toUpperCase (charAt0 (trim ''eel'')) = toUpperCase (slice_last (currentWord apple_game)) \<and>
    round_g apple_game < 5 \<and>
    fst (submitWord started ''G'' 1 ''eel'' 7 0) = \<lparr>valid = True, message = None\<rparr> \<and>
    players (snd (submitWord started ''G'' 1 ''eel'' 7 0)) = [1 \<mapsto> host_player\<lparr>score := 1\<rparr>] \<and>
    games (snd (submitWord started ''G'' 1 ''eel'' 7 0)) =
      [''G'' \<mapsto> apple_game\<lparr>round_g := 2, currentWord := ''EEL'', roundEndsAt := Some 5007\<rparr>]) \<and>
   (reachable round5 \<and> games round5 ''G'' = Some lime_game \<and> status lime_game = Playing \<and>
    playerIds_of round5 ''G'' = [1] \<and> players round5 1 = Some (host_player\<lparr>score := 4\<rparr>) \<and>
    toUpperCase (charAt0 (trim ''eel'')) = toUpperCase (slice_last (currentWord lime_game)) \<and>
    round_g lime_game \<ge> 5 \<and>
    fst (submitWord round5 ''G'' 1 ''eel'' 7 0) = \<lparr>valid = True, message = None\<rparr> \<and>
    players (snd (submitWord round5 ''G'' 1 ''eel'' 7 0)) = [1 \<mapsto> host_player\<lparr>score := 5\<rparr>] \<and>
    games (snd (submitWord round5 ''G'' 1 ''eel'' 7 0)) =
      [''G'' \<mapsto> lime_game\<lparr>status := Finished, roundEndsAt := None\<rparr>])"
proof (rule conjI)
  have h2: "games started ''G'' = Some apple_game" by (simp add: started_eq)
  have h3: "status apple_game = Playing" by (simp add: apple_game_def)
  have l: "playerIds_of started ''G'' = [1]" by (simp add: started_eq playerIds_of_def)
  have h4: "1 \<in> set (playerIds_of started ''G'')" by (simp add: l)
  have h5: "players started 1 = Some host_player" by (simp add: started_eq)
  have h6: "userId host_player = 1" by (simp add: host_player_def)
  have h7: "toUpperCase (charAt0 (trim ''eel'')) = toUpperCase (slice_last (currentWord apple_game))"
    by (simp add: apple_game_def string_defs)
  have f: "find_player started ''G'' 1 = Some host_player"
    by (simp add: started_eq find_player_def playerIds_of_def host_player_def)
  have u: "toUpperCase ''eel'' = ''EEL''" by (simp add: string_defs)
  have r: "round_g apple_game < 5" by (simp add: apple_game_def)
  show "reachable started \<and> games started ''G'' = Some apple_game \<and> status apple_game = Playing \<and>
    playerIds_of started ''G'' = [1] \<and> players started 1 = Some host_player \<and>
    userId host_player = 1 \<and>
    toUpperCase (charAt0 (trim ''eel'')) = toUpperCase (slice_last (currentWord apple_game)) \<and>
    round_g apple_game < 5 \<and>
    fst (submitWord started ''G'' 1 ''eel'' 7 0) = \<lparr>valid = True, message = None\<rparr> \<and>
    players (snd (submitWord started ''G'' 1 ''eel'' 7 0)) = [1 \<mapsto> host_player\<lparr>score := 1\<rparr>] \<and>
    games (snd (submitWord started ''G'' 1 ''eel'' 7 0)) =
      [''G'' \<mapsto> apple_game\<lparr>round_g := 2, currentWord := ''EEL'', roundEndsAt := Some 5007\<rparr>]"
    using C4_valid_submission [OF reachable_started h2 h3 h4 h5 h6 h7, of 7 0]
      reachable_started h2 h3 l h5 h6 h7 f r u
    by (auto simp: started_eq host_player_def apple_game_def)
next
  have h2: "games round5 ''G'' = Some lime_game" by (simp add: round5_eq)
  have h3: "status lime_game = Playing" by (simp add: lime_game_def)
  have l: "playerIds_of round5 ''G'' = [1]" by (simp add: round5_eq playerIds_of_def)
  have h4: "1 \<in> set (playerIds_of round5 ''G'')" by (simp add: l)
  have h5: "players round5 1 = Some (host_player\<lparr>score := 4\<rparr>)" by (simp add: round5_eq)
  have h6: "userId (host_player\<lparr>score := 4\<rparr>) = 1" by (simp add: host_player_def)
  have h7: "toUpperCase (charAt0 (trim ''eel'')) = toUpperCase (slice_last (currentWord lime_game))"
    by (simp add: lime_game_def string_defs)
  have f: "find_player round5 ''G'' 1 = Some (host_player\<lparr>score := 4\<rparr>)"
    by (simp add: round5_eq find_player_def playerIds_of_def host_player_def)
  have r: "round_g lime_game \<ge> 5" by (simp add: lime_game_def)
  show "reachable round5 \<and> games round5 ''G'' = Some lime_game \<and> status lime_game = Playing \<and>
    playerIds_of round5 ''G'' = [1] \<and> players round5 1 = Some (host_player\<lparr>score := 4\<rparr>) \<and>
    toUpperCase (charAt0 (trim ''eel'')) = toUpperCase (slice_last (currentWord lime_game)) \<and>
    round_g lime_game \<ge> 5 \<and>
    fst (submitWord round5 ''G'' 1 ''eel'' 7 0) = \<lparr>valid = True, message = None\<rparr> \<and>
    players (snd (submitWord round5 ''G'' 1 ''eel'' 7 0)) = [1 \<mapsto> host_player\<lparr>score := 5\<rparr>] \<and>
    games (snd (submitWord round5 ''G'' 1 ''eel'' 7 0)) =
      [''G'' \<mapsto> lime_game\<lparr>status := Finished, roundEndsAt := None\<rparr>]"
    using C4_valid_submission [OF reachable_round5 h2 h3 h4 h5 h6 h7, of 7 0]
      reachable_round5 h2 h3 l h5 h6 h7 f r
    by (auto simp: round5_eq host_player_def lime_game_def)
qed

text \<open>
  Claim C9, as amended. A user who is not enrolled in a played game and submits a word that
  passes the first-letter check gets \<open>valid = True\<close>, and no player record changes. Below
  round 5 the round advances by 1 and the submitted word (upper case) becomes the current
  word; at round 5 the round does not advance and the current word stays: the game is
  finished and its expiry cleared.
\<close>

theorem C9_stranger_submission:
  assumes "reachable s" and "games s gid = Some g" and "status g = Playing"
    and "\<forall>pid \<in> set (playerIds_of s gid). \<forall>p. players s pid = Some p \<longrightarrow> userId p \<noteq> uid"
    and "toUpperCase (charAt0 (trim word)) = toUpperCase (slice_last (currentWord g))"
  shows "fst (submitWord s gid uid word now r) = \<lparr>valid = True, message = None\<rparr> \<and>
         players (snd (submitWord s gid uid word now r)) = players s \<and>
         (round_g g < 5 \<longrightarrow>
            games (snd (submitWord s gid uid word now r)) =
              (games s)(gid \<mapsto> g\<lparr>round_g := round_g g + 1, currentWord := toUpperCase word,
                                roundEndsAt := Some (now + 5000)\<rparr>)) \<and>
         (round_g g \<ge> 5 \<longrightarrow>
            games (snd (submitWord s gid uid word now r)) =
              (games s)(gid \<mapsto> g\<lparr>status := Finished, roundEndsAt := None\<rparr>))"
proof -
  have inv: "store_inv s" using assms(1) by (rule reachable_store_inv)
  have g: "id_g g = gid" "game_ok g" using inv assms(2) by (simp_all add: store_inv_def)
  have acc: "accepts g word" using assms(5) by (simp add: accepts_def required_letter_def)
  have ne: "word \<noteq> []" using g(2) assms(3) acc by (rule accepted_nonempty)
  have none: "find_player s gid uid = None" using assms(4) by (rule find_player_None)
  have eq: "submitWord s gid uid word now r =
     (\<lparr>valid = True, message = None\<rparr>, endRound (credit s gid uid) g (Some (toUpperCase word)) now r)"
    using assms(2,3) acc by (rule submitWord_accepted)
  show ?thesis
    using g(1) ne none
    by (simp add: eq games_endRound players_credit_None endRound_game_won endRound_game_final)
qed

theorem C9_stranger_submission_witness:
  "reachable started \<and> games started ''G'' = Some apple_game \<and> status apple_game = Playing \<and>
   playerIds_of started ''G'' = [1] \<and> players started 1 = Some host_player \<and>
   userId host_player \<noteq> 99 \<and>
   toUpperCase (charAt0 (trim ''eel'')) = toUpperCase (slice_last (currentWord apple_game)) \<and>
   round_g apple_game < 5 \<and>
   fst (submitWord started ''G'' 99 ''eel'' 7 0) = \<lparr>valid = True, message = None\<rparr> \<and>
   players (snd (submitWord started ''G'' 99 ''eel'' 7 0)) = players started \<and>
   games (snd (submitWord started ''G'' 99 ''eel'' 7 0)) =
     [''G'' \<mapsto> apple_game\<lparr>round_g := 2, currentWord := ''EEL'', roundEndsAt := Some 5007\<rparr>]"
proof -
  have h2: "games started ''G'' = Some apple_game" by (simp add: started_eq)
  have h3: "status apple_game = Playing" by (simp add: apple_game_def)
  have h4: "\<forall>pid \<in> set (playerIds_of started ''G''). \<forall>p. players started pid = Some p \<longrightarrow> userId p \<noteq> 99"
    by (simp add: started_eq playerIds_of_def host_player_def)
  have h5: "toUpperCase (charAt0 (trim ''eel'')) = toUpperCase (slice_last (currentWord apple_game))"
    by (simp add: apple_game_def string_defs)
  have u: "toUpperCase ''eel'' = ''EEL''" by (simp add: string_defs)
  have r: "round_g apple_game < 5" by (simp add: apple_game_def)
  have e: "playerIds_of started ''G'' = [1]" "players started 1 = Some host_player"
      "userId host_player \<noteq> 99"
    by (simp_all add: started_eq playerIds_of_def host_player_def)
  show ?thesis
    using C9_stranger_submission [OF reachable_started h2 h3 h4 h5, of 7 0] reachable_started h2 h3 h5 r u e
    by (simp add: started_eq apple_game_def)
qed

text \<open>
  Claim C9 as stated fails at round 5: the stranger 99 submits \<open>eel\<close> against LIME, the
  call returns \<open>valid = True\<close>, and the game is finished with round 5 and current word LIME.
\<close>

theorem C9_round5_counterexample:
  "reachable round5 \<and> games round5 ''G'' = Some lime_game \<and> status lime_game = Playing \<and>
   find_player round5 ''G'' 99 = None \<and>
   toUpperCase (charAt0 (trim ''eel'')) = toUpperCase (slice_last (currentWord lime_game)) \<and>
   fst (submitWord round5 ''G'' 99 ''eel'' 7 0) = \<lparr>valid = True, message = None\<rparr> \<and>
   games (snd (submitWord round5 ''G'' 99 ''eel'' 7 0)) ''G'' =
     Some (lime_game\<lparr>status := Finished, roundEndsAt := None\<rparr>) \<and>
   round_g (lime_game\<lparr>status := Finished, roundEndsAt := None\<rparr>) = round_g lime_game \<and>
   currentWord (lime_game\<lparr>status := Finished, roundEndsAt := None\<rparr>) \<noteq> toUpperCase ''eel''"
  using reachable_round5
  by (simp add: round5_eq lime_game_def host_player_def method_defs string_defs Let_def)



subsection \<open>More concrete runs\<close>

lemma run_append: "run s (xs @ ys) = run (run s xs) ys"
  by (induction xs arbitrary: s) simp_all

lemma finished_eq:
  "finished = \<lparr>users = Map.empty, games = [''G'' \<mapsto> over_game],
     players = [1 \<mapsto> host_player\<lparr>score := 5\<rparr>], gamePlayers = [''G'' \<mapsto> [1]],
     userIdCounter = 1, playerIdCounter = 2\<rparr>"
  unfolding finished_def finished_ops_def run_append round5_def [symmetric]
  by (simp add: round5_eq over_game_def lime_game_def host_player_def method_defs string_defs Let_def)

lemma reachable_finished: "reachable finished"
  unfolding finished_def
  by (rule reachable_run [OF reachable.init])
     (simp add: finished_ops_def round5_ops_def started_ops_def unit_interval_def)

lemma full_lobby_eq:
  "full_lobby = \<lparr>users = Map.empty, games = [''G'' \<mapsto> new_game ''G'' 1 False],
     players = [1 \<mapsto> seat 1, 2 \<mapsto> seat 2, 3 \<mapsto> seat 3, 4 \<mapsto> seat 4],
     gamePlayers = [''G'' \<mapsto> [1, 2, 3, 4]],
     userIdCounter = 1, playerIdCounter = 5\<rparr>"
  by (simp add: full_lobby_def lobby_ops_def MemStorage_def new_game_def seat_def
        createGame_def joinGame_def playerIds_of_def Let_def)

lemma full_started_eq:
  "full_started = full_lobby\<lparr>games := [''G'' \<mapsto> apple_game]\<rparr>"
  unfolding full_started_def run_append full_lobby_def [symmetric]
  by (simp add: full_lobby_eq apple_game_def new_game_def startGame_def pick_def startWords_def Let_def)

lemma reachable_full_lobby: "reachable full_lobby"
  unfolding full_lobby_def
  by (rule reachable_run [OF reachable.init]) (simp add: lobby_ops_def)

lemma reachable_full_started: "reachable full_started"
  unfolding full_started_def
  by (rule reachable_run [OF reachable.init]) (simp add: lobby_ops_def unit_interval_def)

lemma bot_started_eq:
  "bot_started = \<lparr>users = Map.empty, games = [''B'' \<mapsto> bot_game],
     players = [1 \<mapsto> host_player\<lparr>gameId := ''B''\<rparr>,
                2 \<mapsto> \<lparr>id_p = 2, gameId = ''B'', userId = - 1, score = 0, hasSubmitted = False\<rparr>],
     gamePlayers = [''B'' \<mapsto> [1, 2]],
     userIdCounter = 1, playerIdCounter = 3\<rparr>"
  by (simp add: bot_started_def bot_ops_def MemStorage_def bot_game_def host_player_def
        method_defs string_defs Let_def)

lemma reachable_bot_started: "reachable bot_started"
  unfolding bot_started_def
  by (rule reachable_run [OF reachable.init]) (simp add: bot_ops_def unit_interval_def)

subsection \<open>Claims about \<open>startGame\<close> and \<open>getGame\<close>\<close>

text \<open>
  Claim C6. \<open>startGame\<close> raises a fault exactly when the game does not exist (the fault
  is \<open>Game not found\<close> and the store is unchanged). For an existing game, whatever its
  status and its players, it sets the status to \<open>Playing\<close>, the round to 1, the current word
  to one of the eight starter words and the expiry to 5000 ms after \<open>now\<close>; nothing else in
  the store changes.
\<close>
theorem C6_startGame:
  "(isl (fst (startGame s gid now r)) \<longleftrightarrow> games s gid = None) \<and>
   (games s gid = None \<longrightarrow> startGame s gid now r = (Inl ''Game not found'', s)) \<and>
   (\<forall>g. games s gid = Some g \<and> unit_interval r \<longrightarrow>
      (\<exists>w \<in> set [''APPLE'', ''TIGER'', ''RIVER'', ''CLOUD'', ''MUSIC'', ''GHOST'', ''LEMON'', ''PIZZA''].
         startGame s gid now r =
           (Inr (), s\<lparr>games := (games s)(gid \<mapsto> g\<lparr>status := Playing, round_g := 1, currentWord := w,
                                              roundEndsAt := Some (now + 5000)\<rparr>)\<rparr>)))"
proof (intro conjI allI impI)
  show "isl (fst (startGame s gid now r)) \<longleftrightarrow> games s gid = None"
    by (simp add: startGame_def Let_def split: option.splits)
  show "startGame s gid now r = (Inl ''Game not found'', s)" if "games s gid = None"
    using that by (simp add: startGame_def)
  fix g assume h: "games s gid = Some g \<and> unit_interval r"
  then have "pick startWords r \<in> set startWords" by (simp add: pick_startWords)
  then have "pick startWords r \<in> set [''APPLE'', ''TIGER'', ''RIVER'', ''CLOUD'', ''MUSIC'', ''GHOST'', ''LEMON'', ''PIZZA'']"
    unfolding startWords_def .
  moreover have "startGame s gid now r =
     (Inr (), s\<lparr>games := (games s)(gid \<mapsto> g\<lparr>status := Playing, round_g := 1,
         currentWord := pick startWords r, roundEndsAt := Some (now + 5000)\<rparr>)\<rparr>)"
    using h by (simp add: startGame_def Let_def)
  ultimately show "\<exists>w \<in> set [''APPLE'', ''TIGER'', ''RIVER'', ''CLOUD'', ''MUSIC'', ''GHOST'', ''LEMON'', ''PIZZA''].
         startGame s gid now r =
           (Inr (), s\<lparr>games := (games s)(gid \<mapsto> g\<lparr>status := Playing, round_g := 1, currentWord := w,
                                              roundEndsAt := Some (now + 5000)\<rparr>)\<rparr>)"
    by blast
qed

theorem C6_startGame_witness:
  "games finished ''G'' = Some over_game \<and> unit_interval (1 / 2) \<and>
   startGame finished ''G'' 100 (1 / 2) =
     (Inr (), finished\<lparr>games := [''G'' \<mapsto> over_game\<lparr>status := Playing, round_g := 1,
                 currentWord := ''MUSIC'', roundEndsAt := Some 5100\<rparr>]\<rparr>) \<and>
   games MemStorage ''G'' = None \<and>
   startGame MemStorage ''G'' 100 (1 / 2) = (Inl ''Game not found'', MemStorage)"
proof -
  have h1: "games finished ''G'' = Some over_game" by (simp add: finished_eq)
  have h2: "unit_interval (1 / 2)" by (simp add: unit_interval_def)
  have h3: "games MemStorage ''G'' = None" by (simp add: MemStorage_def)
  have e: "startGame finished ''G'' 100 (1 / 2) =
     (Inr (), finished\<lparr>games := [''G'' \<mapsto> over_game\<lparr>status := Playing, round_g := 1,
                 currentWord := ''MUSIC'', roundEndsAt := Some 5100\<rparr>]\<rparr>)"
    by (simp add: finished_eq startGame_def pick_def startWords_def Let_def)
  show ?thesis
    using C6_startGame [of MemStorage "''G''" 100 "1 / 2"] C6_startGame [of finished "''G''" 100 "1 / 2"]
      h1 h2 h3 e
    by simp
qed

lemma getGame_view:
  "games s gid = Some g \<Longrightarrow>
   map_option fst (fst (getGame s gid now r1 coin r2)) =
     Some (case games (snd (getGame s gid now r1 coin r2)) gid of
             None \<Rightarrow> (if expired g now then endRound_game g None now r1 else g)
           | Some g' \<Rightarrow> g')"
  by (simp add: getGame_def Let_def)

text \<open>
  Claim C7. In a reachable store, reading a played game whose expiry lies before \<open>now\<close>
  resolves the round as a timeout, and the view returned shows the game after that. No
  player record changes. Below round 5 the round grows by exactly 1, the current word
  becomes one of the five backup words and the expiry is set to 5000 ms after \<open>now\<close>; at round
  5 the status becomes \<open>Finished\<close> and the expiry is cleared. This holds for bot games too:
  right after the timeout the bot has 5 seconds left and does not move.
\<close>
theorem C7_timeout_on_read:
  assumes "reachable s" and "games s gid = Some g" and "status g = Playing"
    and "roundEndsAt g = Some e" and "e < now" and "unit_interval r1"
  shows "players (snd (getGame s gid now r1 coin r2)) = players s \<and>
         map_option fst (fst (getGame s gid now r1 coin r2)) =
           games (snd (getGame s gid now r1 coin r2)) gid \<and>
         (round_g g < 5 \<longrightarrow>
            (\<exists>w \<in> set [''STORM'', ''BREAD'', ''NIGHT'', ''DREAM'', ''FLAME''].
               games (snd (getGame s gid now r1 coin r2)) =
                 (games s)(gid \<mapsto> g\<lparr>round_g := round_g g + 1, currentWord := w,
                                   roundEndsAt := Some (now + 5000)\<rparr>))) \<and>
         (round_g g \<ge> 5 \<longrightarrow>
            games (snd (getGame s gid now r1 coin r2)) =
              (games s)(gid \<mapsto> g\<lparr>status := Finished, roundEndsAt := None\<rparr>))"
proof -
  have inv: "store_inv s" using assms(1) by (rule reachable_store_inv)
  have g: "id_g g = gid" using inv assms(2) by (simp add: store_inv_def)
  have ex: "expired g now" using assms(3,4,5) by (simp add: expired_def)
  have eq: "snd (getGame s gid now r1 coin r2) = endRound s g None now r1"
    using assms(2) ex g by (rule getGame_expired)
  have w: "pick backupWords r1 \<in> set [''STORM'', ''BREAD'', ''NIGHT'', ''DREAM'', ''FLAME'']"
    using pick_backupWords [OF assms(6)] unfolding backupWords_def .
  have "games (snd (getGame s gid now r1 coin r2)) gid = Some (endRound_game g None now r1)"
    using g by (simp add: eq games_endRound)
  then have view: "map_option fst (fst (getGame s gid now r1 coin r2)) =
           games (snd (getGame s gid now r1 coin r2)) gid"
    using getGame_view [OF assms(2), of now r1 coin r2] by simp
  have adv: "round_g g < 5 \<Longrightarrow> games (endRound s g None now r1) =
      (games s)(gid \<mapsto> g\<lparr>round_g := round_g g + 1, currentWord := pick backupWords r1,
                                   roundEndsAt := Some (now + 5000)\<rparr>)"
    using g by (simp add: games_endRound endRound_game_timeout)
  have fin: "round_g g \<ge> 5 \<Longrightarrow> games (endRound s g None now r1) =
      (games s)(gid \<mapsto> g\<lparr>status := Finished, roundEndsAt := None\<rparr>)"
    using g by (simp add: games_endRound endRound_game_final)
  show ?thesis
    unfolding eq using view w adv fin unfolding eq by auto
qed

theorem C7_timeout_on_read_witness:
  "reachable bot_started \<and> games bot_started ''B'' = Some bot_game \<and> status bot_game = Playing \<and>
   roundEndsAt bot_game = Some 5000 \<and> (5000 :: int) < 6000 \<and> unit_interval (1 / 2) \<and>
   round_g bot_game < 5 \<and> isBotGame bot_game \<and>
   players (snd (getGame bot_started ''B'' 6000 (1 / 2) (9 / 10) 0)) = players bot_started \<and>
   map_option fst (fst (getGame bot_started ''B'' 6000 (1 / 2) (9 / 10) 0)) =
     Some (bot_game\<lparr>round_g := 2, currentWord := ''NIGHT'', roundEndsAt := Some 11000\<rparr>) \<and>
   games (snd (getGame bot_started ''B'' 6000 (1 / 2) (9 / 10) 0)) =
     [''B'' \<mapsto> bot_game\<lparr>round_g := 2, currentWord := ''NIGHT'', roundEndsAt := Some 11000\<rparr>] \<and>
   reachable round5 \<and> games round5 ''G'' = Some lime_game \<and> status lime_game = Playing \<and>
   roundEndsAt lime_game = Some 5000 \<and> round_g lime_game \<ge> 5 \<and>
   games (snd (getGame round5 ''G'' 6000 (1 / 2) (9 / 10) 0)) =
     [''G'' \<mapsto> lime_game\<lparr>status := Finished, roundEndsAt := None\<rparr>]"
proof -
  have h2: "games bot_started ''B'' = Some bot_game" by (simp add: bot_started_eq)
  have h3: "status bot_game = Playing" by (simp add: bot_game_def)
  have h4: "roundEndsAt bot_game = Some 5000" by (simp add: bot_game_def)
  have h5: "(5000 :: int) < 6000" by simp
  have h6: "unit_interval (1 / 2)" by (simp add: unit_interval_def)
  have r: "round_g bot_game < 5" "isBotGame bot_game" by (simp_all add: bot_game_def)
  have e: "games (snd (getGame bot_started ''B'' 6000 (1 / 2) (9 / 10) 0)) =
     [''B'' \<mapsto> bot_game\<lparr>round_g := 2, currentWord := ''NIGHT'', roundEndsAt := Some 11000\<rparr>]"
    by (simp add: bot_started_eq bot_game_def method_defs string_defs Let_def)
  have k2: "games round5 ''G'' = Some lime_game" by (simp add: round5_eq)
  have k3: "status lime_game = Playing" by (simp add: lime_game_def)
  have k4: "roundEndsAt lime_game = Some 5000" by (simp add: lime_game_def)
  have k5: "round_g lime_game \<ge> 5" by (simp add: lime_game_def)
  have "games round5 = [''G'' \<mapsto> lime_game]" by (simp add: round5_eq)
  then have f: "games (snd (getGame round5 ''G'' 6000 (1 / 2) (9 / 10) 0)) =
     [''G'' \<mapsto> lime_game\<lparr>status := Finished, roundEndsAt := None\<rparr>]"
    using C7_timeout_on_read [OF reachable_round5 k2 k3 k4 h5 h6, of "9 / 10" 0] k5 by simp
  show ?thesis
    using C7_timeout_on_read [OF reachable_bot_started h2 h3 h4 h5 h6, of "9 / 10" 0]
      reachable_bot_started reachable_round5 h2 h3 h4 h5 h6 r e k2 k3 k4 k5 f
    by simp
qed

subsection \<open>Claims about the invariants of reachable stores\<close>

text \<open>
  Claim C8. In every reachable store, that is after any sequence of \<open>createUser\<close>,
  \<open>createGame\<close>, \<open>getGame\<close>, \<open>joinGame\<close>, \<open>startGame\<close>, \<open>submitWord\<close> and \<open>processBotMove\<close>
  from the empty store, every game has an expiry if and only if its status is \<open>Playing\<close>;
  and the same holds again after any further operation.
\<close>
theorem C8_expiry_iff_playing:
  assumes "reachable s"
  shows "(\<forall>k g. games s k = Some g \<longrightarrow> (roundEndsAt g \<noteq> None \<longleftrightarrow> status g = Playing)) \<and>
         (\<forall>x k g. valid_op x \<and> games (step s x) k = Some g \<longrightarrow>
                    (roundEndsAt g \<noteq> None \<longleftrightarrow> status g = Playing))"
proof -
  have *: "roundEndsAt g \<noteq> None \<longleftrightarrow> status g = Playing"
    if "reachable t" "games t k = Some g" for t k g
  proof -
    have "store_inv t" using that(1) by (rule reachable_store_inv)
    then have "game_ok g" using that(2) by (simp add: store_inv_def)
    then show ?thesis by (simp add: game_ok_def)
  qed
  show ?thesis
    using assms * [OF assms] * [OF reachable.step [OF assms]] by blast
qed

theorem C8_expiry_iff_playing_witness:
  "reachable finished \<and> games finished ''G'' = Some over_game \<and>
   roundEndsAt over_game = None \<and> status over_game \<noteq> Playing \<and>
   valid_op (StartGame ''G'' 9000 0) \<and>
   games (step finished (StartGame ''G'' 9000 0)) ''G'' =
     Some (over_game\<lparr>status := Playing, round_g := 1, currentWord := ''APPLE'',
                     roundEndsAt := Some 14000\<rparr>)"
proof -
  have h1: "games finished ''G'' = Some over_game" by (simp add: finished_eq)
  have b: "roundEndsAt over_game = None" by (simp add: over_game_def)
  have c: "status over_game \<noteq> Playing" by (simp add: over_game_def)
  have v: "valid_op (StartGame ''G'' 9000 0)" by (simp add: unit_interval_def)
  have e: "games (step finished (StartGame ''G'' 9000 0)) ''G'' =
     Some (over_game\<lparr>status := Playing, round_g := 1, currentWord := ''APPLE'',
                     roundEndsAt := Some 14000\<rparr>)"
    by (simp add: finished_eq startGame_def pick_def startWords_def Let_def)
  show ?thesis
    using C8_expiry_iff_playing [OF reachable_finished] reachable_finished h1 b c v e by simp
qed

text \<open>
  Claim C5, as amended. In every reachable store every game has at most 4 enrolled
  players. \<open>joinGame\<close> on a waiting game with 4 players fails with \<open>Game full\<close>; on a game
  that is not waiting it fails with \<open>Game already started\<close>, whatever the number of
  players. In both cases the store is unchanged. The bound holds again after any further
  operation, \<open>createGame\<close> with its enrolment of the host and of the bot included.
\<close>
theorem C5_player_bound:
  assumes "reachable s" and "games s k = Some g"
  shows "length (playerIds_of s k) \<le> 4 \<and>
         (status g = Waiting \<and> length (playerIds_of s k) = 4 \<longrightarrow>
            joinGame s k uid = (Inl ''Game full'', s)) \<and>
         (status g \<noteq> Waiting \<longrightarrow> joinGame s k uid = (Inl ''Game already started'', s)) \<and>
         (\<forall>x k'. valid_op x \<longrightarrow> length (playerIds_of (step s x) k') \<le> 4)"
proof -
  have *: "length (playerIds_of t k') \<le> 4" if "reachable t" for t k'
    using playerIds_of_bounds [OF reachable_store_inv [OF that]] by blast
  have "\<forall>x k'. valid_op x \<longrightarrow> length (playerIds_of (step s x) k') \<le> 4"
    using * [OF reachable.step [OF assms(1)]] by blast
  then show ?thesis using * [OF assms(1), of k] assms(2) by (simp add: joinGame_def Let_def)
qed

theorem C5_player_bound_witness:
  "reachable full_lobby \<and> games full_lobby ''G'' = Some (new_game ''G'' 1 False) \<and>
   status (new_game ''G'' 1 False) = Waiting \<and> length (playerIds_of full_lobby ''G'') = 4 \<and>
   joinGame full_lobby ''G'' 5 = (Inl ''Game full'', full_lobby) \<and>
   valid_op (JoinGame ''G'' 5) \<and>
   length (playerIds_of (step full_lobby (JoinGame ''G'' 5)) ''G'') \<le> 4"
proof -
  have h: "games full_lobby ''G'' = Some (new_game ''G'' 1 False)" by (simp add: full_lobby_eq)
  have w: "status (new_game ''G'' 1 False) = Waiting" by (simp add: new_game_def)
  have l: "length (playerIds_of full_lobby ''G'') = 4" by (simp add: full_lobby_eq playerIds_of_def)
  have v: "valid_op (JoinGame ''G'' 5)" by simp
  show ?thesis
    using C5_player_bound [OF reachable_full_lobby h, of 5] reachable_full_lobby h w l v by simp
qed

text \<open>
  Claim C5 as stated fails on a game with 4 players that has been started: the fault is
  \<open>Game already started\<close>, not \<open>Game full\<close>.
\<close>
theorem C5_started_counterexample:
  "reachable full_started \<and> length (playerIds_of full_started ''G'') = 4 \<and>
   joinGame full_started ''G'' 5 = (Inl ''Game already started'', full_started) \<and>
   fst (joinGame full_started ''G'' 5) \<noteq> Inl ''Game full''"
  using reachable_full_started
  by (simp add: full_started_eq full_lobby_eq apple_game_def joinGame_def playerIds_of_def)

subsection \<open>Joining again\<close>

lemma find_map_option: "find P (map f xs) = map_option f (find (P \<circ> f) xs)"
  by (induction xs) simp_all

lemma joinGame_rejoin:
  assumes "reachable s" and "games s gid = Some g" and "status g = Waiting"
    and "length (playerIds_of s gid) < 4" and "find_player s gid uid = Some p"
  shows "joinGame s gid uid = (Inr p, s)"
proof -
  let ?P = "\<lambda>q. (case q of None \<Rightarrow> False | Some q' \<Rightarrow> (userId q' = uid))"
  let ?Q = "\<lambda>pid. (case players s pid of None \<Rightarrow> False | Some q' \<Rightarrow> (userId q' = uid))"
  have inv: "store_inv s" using assms(1) by (rule reachable_store_inv)
  have PQ: "?P \<circ> players s = ?Q" by (simp add: fun_eq_iff)
  from assms(5) have "find ?P (map (players s) (playerIds_of s gid)) = Some (Some p)"
    by (simp add: find_player_def split: option.splits)
  then have "map_option (players s) (find ?Q (playerIds_of s gid)) = Some (Some p)"
    by (simp add: find_map_option PQ)
  then obtain pid where pid: "find ?Q (playerIds_of s gid) = Some pid" "players s pid = Some p"
    by auto
  then have "pid \<in> set (playerIds_of s gid)"
    by (auto simp: find_Some_iff)
  then have "pid \<noteq> 0" using playerIds_of_bounds [OF inv, of gid] by auto
  then show ?thesis
    using assms(2,3,4) pid by (simp add: joinGame_def Let_def)
qed

text \<open>
  Claim C1. A user who is enrolled in a waiting game and joins again gets the existing
  player record back, and the store is unchanged, as long as the game has fewer than 4
  players (lemma \<open>joinGame_rejoin\<close>). With 4 players the claim fails on the source: the
  test for a full game comes before the search for the existing player. In the lobby of
  users 1 to 4, user 1 joins again and gets the fault \<open>Game full\<close>.
\<close>
theorem C1_rejoin_full_lobby:
  "reachable full_lobby \<and> map_option status (games full_lobby ''G'') = Some Waiting \<and>
   playerIds_of full_lobby ''G'' = [1, 2, 3, 4] \<and>
   players full_lobby 1 = Some (seat 1) \<and> userId (seat 1) = 1 \<and>
   joinGame full_lobby ''G'' 1 = (Inl ''Game full'', full_lobby)"
  using reachable_full_lobby
  by (simp add: full_lobby_eq new_game_def seat_def joinGame_def playerIds_of_def)

subsection \<open>Claims about the order of the status\<close>

lemma moves_on_refl [simp]: "moves_on g g"
  by (simp add: moves_on_def)

lemma status_endRound_game:
  "status (endRound_game g w now r) = (if round_g g \<ge> 5 then Finished else status g)"
  by (simp add: endRound_game_def Let_def)

lemma endRound_moves:
  assumes "games s k = Some g" and "games s (id_g g0) = Some g0" and "status g0 = Playing"
  shows "\<exists>g'. games (endRound s g0 w now r) k = Some g' \<and> moves_on g g'"
proof (cases "k = id_g g0")
  case True
  then have "g = g0" using assms(1,2) by simp
  then show ?thesis
    using True assms(3) by (simp add: games_endRound moves_on_def status_endRound_game)
next
  case False
  then show ?thesis using assms(1) by (simp add: games_endRound)
qed

lemma submitWord_moves:
  assumes "store_inv s" and "games s k = Some g"
  shows "\<exists>g'. games (snd (submitWord s gid uid word now r)) k = Some g' \<and> moves_on g g'"
proof (cases "games s gid")
  case None
  then show ?thesis using assms(2) by (simp add: submitWord_inactive)
next
  case (Some g0)
  then have id0: "id_g g0 = gid" using assms(1) by (simp add: store_inv_def)
  show ?thesis
  proof (cases "status g0 = Playing")
    case False
    then show ?thesis using Some assms(2) by (simp add: submitWord_inactive)
  next
    case True
    show ?thesis
    proof (cases "accepts g0 word")
      case False
      then show ?thesis using Some True assms(2) by (simp add: submitWord_rejected)
    next
      case acc: True
      have "\<exists>g'. games (endRound (credit s gid uid) g0 (Some (toUpperCase word)) now r) k = Some g'
              \<and> moves_on g g'"
        using assms(2) Some id0 True by (intro endRound_moves) simp_all
      then show ?thesis using Some True acc by (simp add: submitWord_accepted)
    qed
  qed
qed

lemma processBotMove_moves_on:
  assumes "store_inv s" and "games s k = Some g"
  shows "\<exists>g'. games (processBotMove s gid now coin r) k = Some g' \<and> moves_on g g'"
proof (cases "games s gid")
  case None
  then show ?thesis using assms(2) by (simp add: processBotMove_absent)
next
  case (Some g0)
  show ?thesis
  proof (cases "bot_moves g0 now coin")
    case True
    then show ?thesis
      using Some submitWord_moves [OF assms, of gid "- 1" _ now r]
      by (simp add: processBotMove_moves)
  next
    case False
    then show ?thesis using Some assms(2) by (simp add: processBotMove_idle)
  qed
qed

lemma getGame_moves:
  assumes "store_inv s" and "games s k = Some g"
  shows "\<exists>g'. games (snd (getGame s gid now r1 coin r2)) k = Some g' \<and> moves_on g g'"
proof (cases "games s gid")
  case None
  then show ?thesis using assms(2) by (simp add: getGame_absent)
next
  case (Some g0)
  then have id0: "id_g g0 = gid" using assms(1) by (simp add: store_inv_def)
  show ?thesis
  proof (cases "expired g0 now")
    case True
    then have "status g0 = Playing" by (simp add: expired_def)
    then have "\<exists>g'. games (endRound s g0 None now r1) k = Some g' \<and> moves_on g g'"
      using assms(2) Some id0 by (intro endRound_moves) simp_all
    then show ?thesis using Some True id0 by (simp add: getGame_expired)
  next
    case False
    then show ?thesis
      using Some assms(2) processBotMove_moves_on [OF assms, of gid now coin r2]
      by (simp add: getGame_fresh)
  qed
qed

lemma games_enroll [simp]: "games (enroll s gid uid) = games s"
  by (simp add: enroll_def)

lemma games_joinGame: "games (snd (joinGame s gid uid)) = games s"
  using joinGame_store [of s gid uid] by auto

lemma games_createGame:
  "games (snd (createGame s newId host isBot)) = (games s)(newId \<mapsto> new_game newId host isBot)"
  by (simp add: createGame_eq open_game_def)

lemma games_startGame_other: "gid \<noteq> k \<Longrightarrow> games (snd (startGame s gid now r)) k = games s k"
  by (simp add: startGame_def Let_def split: option.splits)

lemma step_moves:
  assumes "store_inv s" and "games s k = Some g" and "\<not> restarts x k"
  shows "\<exists>g'. games (step s x) k = Some g' \<and> moves_on g g'"
proof (cases x)
  case (CreateUser name)
  then show ?thesis using assms(2) by (simp add: createUser_def Let_def)
next
  case (CreateGame newId host isBot)
  then show ?thesis using assms(2,3) by (simp add: games_createGame)
next
  case (GetGame gid now r1 coin r2)
  then show ?thesis using getGame_moves [OF assms(1,2)] by simp
next
  case (JoinGame gid uid)
  then show ?thesis using assms(2) by (simp add: games_joinGame)
next
  case (StartGame gid now r)
  then show ?thesis using assms(2,3) by (simp add: games_startGame_other)
next
  case (SubmitWord gid uid word now r)
  then show ?thesis using submitWord_moves [OF assms(1,2)] by simp
next
  case (ProcessBotMove gid now coin r)
  then show ?thesis using processBotMove_moves_on [OF assms(1,2)] by simp
qed

text \<open>
  Claim C2, as amended. In a reachable store, an operation other than \<open>startGame\<close> on the
  game and other than a \<open>createGame\<close> that draws the game's identifier again leaves the
  status of a game as it is or moves it from \<open>Playing\<close> to \<open>Finished\<close>; a finished game is
  not changed at all, and its expiry is \<open>None\<close>. (\<open>startGame\<close> sets every existing game to
  \<open>Playing\<close>, see claim C6.)
\<close>
theorem C2_status_monotone:
  assumes "reachable s" and "games s k = Some g" and "\<not> restarts x k"
  shows "\<exists>g'. games (step s x) k = Some g' \<and>
           (status g' = status g \<or> status g = Playing \<and> status g' = Finished) \<and>
           (status g = Finished \<longrightarrow> g' = g \<and> roundEndsAt g' = None)"
proof -
  have inv: "store_inv s" using assms(1) by (rule reachable_store_inv)
  then have ok: "game_ok g" using assms(2) by (simp add: store_inv_def)
  obtain g' where g': "games (step s x) k = Some g'" "moves_on g g'"
    using step_moves [OF inv assms(2,3)] by blast
  have "status g' = status g \<or> status g = Playing \<and> status g' = Finished"
    using g'(2) by (auto simp: moves_on_def)
  moreover have "status g = Finished \<longrightarrow> g' = g \<and> roundEndsAt g' = None"
    using g'(2) ok by (auto simp: moves_on_def game_ok_def)
  ultimately show ?thesis using g'(1) by blast
qed

theorem C2_status_monotone_witness:
  "reachable finished \<and> games finished ''G'' = Some over_game \<and>
   \<not> restarts (GetGame ''G'' 9000 0 0 0) ''G'' \<and> status over_game = Finished \<and>
   games (step finished (GetGame ''G'' 9000 0 0 0)) ''G'' = Some over_game \<and>
   roundEndsAt over_game = None"
proof -
  have h: "games finished ''G'' = Some over_game" by (simp add: finished_eq)
  have n: "\<not> restarts (GetGame ''G'' 9000 0 0 0) ''G''" by simp
  have f: "status over_game = Finished" by (simp add: over_game_def)
  show ?thesis
    using C2_status_monotone [OF reachable_finished h n] reachable_finished h n f by auto
qed

text \<open>
  Claim C2 as stated fails: \<open>startGame\<close> on the finished game makes it \<open>Playing\<close> again,
  with an expiry; and a \<open>createGame\<close> that draws the same identifier puts a waiting game in
  its place.
\<close>
theorem C2_restart_counterexample:
  "reachable finished \<and> map_option status (games finished ''G'') = Some Finished \<and>
   valid_op (StartGame ''G'' 9000 0) \<and>
   map_option status (games (step finished (StartGame ''G'' 9000 0)) ''G'') = Some Playing \<and>
   map_option roundEndsAt (games (step finished (StartGame ''G'' 9000 0)) ''G'') = Some (Some 14000) \<and>
   map_option status (games (step finished (CreateGame ''G'' 7 False)) ''G'') = Some Waiting"
  using reachable_finished
  by (simp add: finished_eq over_game_def startGame_def unit_interval_def Let_def
        games_createGame new_game_def)

end
